theory Spec2Isabelle
  imports Complex_Main "HOL-Library.Word" "HOL-Library.AList" "HOL-Library.Sublist"
begin

section \<open>JavaScript values\<close>

text \<open>
  A JavaScript string is a sequence of UTF-16 code units; \<open>length\<close> counts code units, as
  \<open>String.prototype.length\<close> does. \<open>js\<close> embeds an ASCII literal.
\<close>

type_synonym code_unit = "16 word"
type_synonym js_string = "code_unit list"

definition js :: "string \<Rightarrow> js_string" where
  "js s = map (\<lambda>c. of_nat (of_char c)) s"

text \<open>
  Numbers are kept exact: the finite doubles are rationals, and the only properties of a
  number used by the dashboard code are whether it is \<open>NaN\<close>, whether it is zero, and how
  it compares with the literals 5 and 30.
\<close>

datatype js_number = NaN | PosInfinity | NegInfinity | Finite rat

datatype js_value =
    Undefined
  | Null
  | Boolean bool
  | Number js_number
  | String js_string
  | Object "(js_string \<times> js_value) list"

datatype js_error =
    Error js_string
  | TypeError js_string
  | SyntaxError js_string
  | URIError js_string
  | RangeError js_string

text \<open>\<open>!v\<close>: the falsy values are undefined, null, false, NaN, zero and the empty string.\<close>

fun falsy :: "js_value \<Rightarrow> bool" where
  "falsy Undefined = True"
| "falsy Null = True"
| "falsy (Boolean b) = (\<not> b)"
| "falsy (Number n) = (n = NaN \<or> n = Finite 0)"
| "falsy (String s) = (s = [])"
| "falsy (Object ps) = False"

text \<open>
  \<open>String.prototype.trim\<close> removes WhiteSpace and LineTerminator code points from both
  ends.
\<close>

definition is_white_space :: "code_unit \<Rightarrow> bool" where
  "is_white_space c \<longleftrightarrow>
     c = 0x0009 \<or> c = 0x000A \<or> c = 0x000B \<or> c = 0x000C \<or> c = 0x000D \<or> c = 0x0020 \<or>
     c = 0x00A0 \<or> c = 0x1680 \<or> (0x2000 \<le> c \<and> c \<le> 0x200A) \<or> c = 0x2028 \<or>
     c = 0x2029 \<or> c = 0x202F \<or> c = 0x205F \<or> c = 0x3000 \<or> c = 0xFEFF"

definition trim :: "js_string \<Rightarrow> js_string" where
  "trim s = rev (dropWhile is_white_space (rev (dropWhile is_white_space s)))"

text \<open>
  \<open>s.split(sep)\<close> for a one-unit separator: the pieces between the separators, so a
  string with \<open>n\<close> separators gives \<open>n + 1\<close> pieces and the empty string gives one
  empty piece.
\<close>

fun split :: "code_unit \<Rightarrow> js_string \<Rightarrow> js_string list" where
  "split sep [] = [[]]"
| "split sep (c # cs) =
     (if c = sep then [] # split sep cs
      else (case split sep cs of [] \<Rightarrow> [[c]] | p # ps \<Rightarrow> (c # p) # ps))"

text \<open>
  \<open>s.substring(start, end)\<close> on non-negative integers: both indices are clamped to the
  length and swapped when out of order. \<open>s.substring(start)\<close> runs to the end.
\<close>

definition substring :: "js_string \<Rightarrow> nat \<Rightarrow> nat \<Rightarrow> js_string" where
  "substring s start end' =
     (let a = min start (length s); b = min end' (length s)
      in take (max a b - min a b) (drop (min a b) s))"

definition substring_from :: "js_string \<Rightarrow> nat \<Rightarrow> js_string" where
  "substring_from s start = substring s start (length s)"

text \<open>\<open>s.includes(sub)\<close>: \<open>sub\<close> occurs in \<open>s\<close> at some position.\<close>

fun js_includes :: "js_string \<Rightarrow> js_string \<Rightarrow> bool" where
  "js_includes [] sub = (sub = [])"
| "js_includes (c # cs) sub = (take (length sub) (c # cs) = sub \<or> js_includes cs sub)"

text \<open>A non-negative integer in a template literal: its decimal digits.\<close>

fun digits :: "nat \<Rightarrow> js_string" where
  "digits n =
     (if n < 10 then [of_nat (48 + n)] else digits (n div 10) @ [of_nat (48 + n mod 10)])"

declare digits.simps [simp del]

text \<open>
  A property key is an array index when it is the canonical decimal string of an integer
  from 0 to \<open>2^32 - 2\<close>: digits only, no leading zero except for \<open>0\<close> itself.
\<close>

definition array_index :: "js_string \<Rightarrow> nat option" where
  "array_index k =
     (let n = foldl (\<lambda>n c. 10 * n + unat (c - 48)) 0 k
      in if k \<noteq> [] \<and> list_all (\<lambda>c. 48 \<le> c \<and> c \<le> 57) k \<and>
            (length k = 1 \<or> hd k \<noteq> 48) \<and> n \<le> 4294967294
         then Some n else None)"

text \<open>
  The order in which an object lists its own string keys: the array indices in ascending
  numeric order, then the other keys in the order they were created.
\<close>

definition own_property_order ::
  "(js_string \<times> js_value) list \<Rightarrow> (js_string \<times> js_value) list"
where
  "own_property_order ps =
     sort_key (\<lambda>p. case array_index (fst p) of None \<Rightarrow> 0 | Some n \<Rightarrow> n)
       (filter (\<lambda>p. array_index (fst p) \<noteq> None) ps) @
     filter (\<lambda>p. array_index (fst p) = None) ps"

text \<open>
  Object spread \<open>{...a, ...b}\<close> on property lists: the properties of \<open>a\<close>, each
  overwritten in place by the property of \<open>b\<close> with the same key, then the new keys of
  \<open>b\<close> in their order; the new object lists them in its own property order.
\<close>

definition spread ::
  "(js_string \<times> js_value) list \<Rightarrow> (js_string \<times> js_value) list \<Rightarrow> (js_string \<times> js_value) list"
where
  "spread a b = own_property_order (foldl (\<lambda>acc (k, v). AList.update k v acc) a b)"

section \<open>static/js/api.js\<close>

subsection \<open>getCookie\<close>

text \<open>
  \<open>decodeURIComponent\<close> is the built-in; it is a parameter of the model and may throw
  (\<open>URIError\<close> on a malformed escape). The \<open>for\<close> loop over \<open>cookies\<close> is the
  recursion of \<open>getCookie_loop\<close> over the entries not yet visited; \<open>break\<close> is the
  branch without a recursive call.
\<close>

fun getCookie_loop ::
  "(js_string \<Rightarrow> js_error + js_string) \<Rightarrow> js_string \<Rightarrow> js_string list \<Rightarrow> js_error + js_value"
where
  "getCookie_loop decodeURIComponent name [] = Inr Null"
| "getCookie_loop decodeURIComponent name (c # cookies) =
     (let cookie = trim c in
      if substring cookie 0 (length name + 1) = name @ js ''=''
      then (case decodeURIComponent (substring_from cookie (length name + 1)) of
              Inl e \<Rightarrow> Inl e
            | Inr v \<Rightarrow> Inr (String v))
      else getCookie_loop decodeURIComponent name cookies)"

definition getCookie ::
  "(js_string \<Rightarrow> js_error + js_string) \<Rightarrow> js_string \<Rightarrow> js_string \<Rightarrow> js_error + js_value"
where
  "getCookie decodeURIComponent document_cookie name =
     (if document_cookie \<noteq> []
      then getCookie_loop decodeURIComponent name (split 0x3B document_cookie)
      else Inr Null)"

subsection \<open>apiRequest\<close>

text \<open>
  What \<open>apiRequest\<close> reads of a \<open>Response\<close>: \<open>ok\<close>, \<open>status\<close>,
  \<open>headers.get('content-type')\<close> (null when the header is absent), and the settled
  outcomes of \<open>json()\<close> and \<open>text()\<close>, each of which may reject.
\<close>

record 'j response =
  response_ok :: bool
  response_status :: nat
  content_type_header :: "js_string option"
  response_json :: "js_error + 'j"
  response_text :: "js_error + js_string"

datatype 'j body = Json 'j | Text js_string

definition getDefaultHeaders ::
  "(js_string \<Rightarrow> js_error + js_string) \<Rightarrow> js_string \<Rightarrow> js_error + js_value"
where
  "getDefaultHeaders decodeURIComponent document_cookie =
     (case getCookie decodeURIComponent document_cookie (js ''csrftoken'') of
        Inl e \<Rightarrow> Inl e
      | Inr token \<Rightarrow>
          Inr (Object [(js ''Content-Type'', String (js ''application/json'')),
                       (js ''X-CSRFToken'', token)]))"

text \<open>The body of the \<open>try\<close> block, after \<open>fetch\<close> has settled.\<close>

definition handle_response :: "'j response \<Rightarrow> js_error + 'j body" where
  "handle_response response =
     (if \<not> response_ok response
      then Inl (Error (js ''HTTP error! status: '' @ digits (response_status response)))
      else (case content_type_header response of
              None \<Rightarrow> map_sum id Text (response_text response)
            | Some contentType \<Rightarrow>
                if contentType \<noteq> [] \<and> js_includes contentType (js ''application/json'')
                then map_sum id Json (response_json response)
                else map_sum id Text (response_text response)))"

text \<open>
  \<open>apiRequest\<close> returns the settled outcome of the promise together with what it wrote
  to \<open>console.error\<close>. The default options are built before the \<open>try\<close>, so a throw of
  \<open>getCookie\<close> rejects without being logged; everything thrown inside the \<open>try\<close> is
  logged and thrown again.
\<close>

definition apiRequest ::
  "(js_string \<Rightarrow> js_error + js_string) \<Rightarrow> js_string \<Rightarrow>
   (js_string \<Rightarrow> (js_string \<times> js_value) list \<Rightarrow> js_error + 'j response) \<Rightarrow>
   js_string \<Rightarrow> (js_string \<times> js_value) list \<Rightarrow> (js_error + 'j body) \<times> js_error list"
where
  "apiRequest decodeURIComponent document_cookie fetch url options =
     (case getDefaultHeaders decodeURIComponent document_cookie of
        Inl e \<Rightarrow> (Inl e, [])
      | Inr headers \<Rightarrow>
          (let defaultOptions =
                 [(js ''headers'', headers), (js ''credentials'', String (js ''same-origin''))];
               config = spread defaultOptions options;
               outcome = (case fetch url config of
                            Inl e \<Rightarrow> Inl e
                          | Inr response \<Rightarrow> handle_response response)
           in (case outcome of
                 Inl error \<Rightarrow> (Inl error, [error])
               | Inr v \<Rightarrow> (Inr v, []))))"

section \<open>Dashboard utilities\<close>

subsection \<open>Formatters\<close>

text \<open>
  \<open>Intl.NumberFormat\<close> and the \<open>Date\<close> methods are built-ins and parameters of the
  model; each may throw (a \<open>RangeError\<close> for a fraction-digit count out of range).
  A default parameter takes its default when the argument is undefined.
\<close>

definition formatNumber ::
  "(js_value \<Rightarrow> js_value \<Rightarrow> js_error + js_string) \<Rightarrow> js_value \<Rightarrow> js_value \<Rightarrow> js_error + js_string"
where
  "formatNumber numberFormat num decimals_arg =
     (let decimals = (if decimals_arg = Undefined then Number (Finite 0) else decimals_arg)
      in if num = Null \<or> num = Undefined then Inr (js ''-'')
         else numberFormat decimals num)"

definition formatCurrency ::
  "(js_value \<Rightarrow> js_error + js_string) \<Rightarrow> js_value \<Rightarrow> js_error + js_string"
where
  "formatCurrency currencyFormat amount =
     (if amount = Null \<or> amount = Undefined then Inr (js ''$0.00'')
      else currencyFormat amount)"

definition formatDateTime ::
  "(js_value \<Rightarrow> js_error + js_string) \<Rightarrow> js_value \<Rightarrow> js_error + js_string"
where
  "formatDateTime toLocaleString dateString =
     (if falsy dateString then Inr (js ''-'') else toLocaleString dateString)"

definition formatTime ::
  "(js_value \<Rightarrow> js_error + js_string) \<Rightarrow> js_value \<Rightarrow> js_error + js_string"
where
  "formatTime toLocaleTimeString dateString =
     (if falsy dateString then Inr (js ''-'') else toLocaleTimeString dateString)"

subsection \<open>getDeviceStatusClass\<close>

text \<open>
  \<open>timeValue v\<close> is the time value of \<open>new Date(v)\<close> in milliseconds, \<open>None\<close> for an
  invalid date (whose time value is \<open>NaN\<close>); \<open>now\<close> is the time value of
  \<open>new Date()\<close>. Time values are integers, so \<open>(now - lastSeenDate) / (1000 * 60)\<close>
  is an exact rational or \<open>NaN\<close>, and every comparison with \<open>NaN\<close> is false.
\<close>

definition js_less :: "rat option \<Rightarrow> rat \<Rightarrow> bool" where
  "js_less x y = (case x of None \<Rightarrow> False | Some v \<Rightarrow> v < y)"

definition diff_minutes :: "(js_value \<Rightarrow> int option) \<Rightarrow> int \<Rightarrow> js_value \<Rightarrow> rat option" where
  "diff_minutes timeValue now lastSeen =
     map_option (\<lambda>lastSeenDate. of_int (now - lastSeenDate) / (1000 * 60)) (timeValue lastSeen)"

definition getDeviceStatusClass :: "(js_value \<Rightarrow> int option) \<Rightarrow> int \<Rightarrow> js_value \<Rightarrow> js_string" where
  "getDeviceStatusClass timeValue now lastSeen =
     (if falsy lastSeen then js ''status-offline''
      else (let diffMinutes = diff_minutes timeValue now lastSeen
            in if js_less diffMinutes 5 then js ''status-online''
               else if js_less diffMinutes 30 then js ''status-warning''
               else js ''status-offline''))"

text \<open>
  The classification as the specification words it: offline exactly when the gap between
  the current time and last-seen exceeds the offline threshold (in minutes), a device with
  no last-seen being offline.
\<close>

definition spec_offline :: "rat \<Rightarrow> int \<Rightarrow> int option \<Rightarrow> bool" where
  "spec_offline offline_threshold now last_seen_time =
     (case last_seen_time of
        None \<Rightarrow> True
      | Some t \<Rightarrow> of_int (now - t) / (1000 * 60) > offline_threshold)"

text \<open>A 404 answer, used to run \<open>apiRequest\<close> on a concrete response.\<close>

definition not_found :: "nat response" where
  "not_found = \<lparr>response_ok = False, response_status = 404,
     content_type_header = Some (js ''text/html''),
     response_json = Inl (SyntaxError (js ''Unexpected token'')),
     response_text = Inr (js ''Not found'')\<rparr>"

text \<open>A 200 answer that carries JSON, here the number 7.\<close>

definition device_count :: "nat response" where
  "device_count = \<lparr>response_ok = True, response_status = 200,
     content_type_header = Some (js ''application/json; charset=utf-8''),
     response_json = Inr 7,
     response_text = Inr (js ''7'')\<rparr>"

section \<open>Telemetry evaluator\<close>

text \<open>
  Modelled from the spec: the telemetry evaluator (its sections 3, 4.1 and 7) is the
  backend's alerting core, which is not among the repository's source files; only its
  consumer, the dashboard code above, is. Timestamps and durations are integers in one
  unit, the seconds of the README's API example; flow and consumption are exact
  rationals. Billing is left out: the spec names neither what a period boundary is nor
  what the tiered, tax and discount adjustments compute.
\<close>

text \<open>
  Modelled from the spec: a Reading is a "device identifier, flow rate, total consumption,
  pulse count, timestamp" (the fields of the README's \<open>POST /api/data/\<close> body).
\<close>

record reading =
  device_id :: string
  flow_rate :: rat
  total_consumption :: rat
  pulse_count :: int
  timestamp :: int

text \<open>
  Modelled from the spec: the per-device state, "last-seen timestamp, cumulative pulse
  count, cumulative consumption", the soft-retirement flag, and the rolling windows, each
  "an explicit bounded time-ordered sequence of (timestamp, value) pairs per device".
  \<open>quiet_since\<close> is the time since which the flow has been zero or below the leak
  threshold, and \<open>last_breach\<close> the time of the last excessive-usage breach.
\<close>

record device =
  last_seen :: int
  cumulative_pulse_count :: int
  cumulative_consumption :: rat
  retired :: bool
  flow_window :: "(int \<times> rat) list"
  quiet_since :: "int option"
  usage_window :: "(int \<times> rat) list"
  last_breach :: "int option"

text \<open>Modelled from the spec: the alert "kind (leak | excessive-usage | device-offline)".\<close>

datatype alert_kind = Leak | ExcessiveUsage | DeviceOffline

text \<open>
  Modelled from the spec: an Alert is a "kind, device identifier, triggering value,
  threshold, opened timestamp, resolved timestamp (nullable), resolved-by (nullable)".
  An alert is open while its resolved timestamp is null; an automatic closure sets the
  resolved timestamp and leaves resolved-by null.
\<close>

record alert =
  kind :: alert_kind
  of_device :: string
  triggering_value :: rat
  threshold :: rat
  opened_at :: int
  resolved_at :: "int option"
  resolved_by :: "string option"

text \<open>Modelled from the spec: the events \<open>ingest\<close> and the sweep return.\<close>

datatype event = AlertOpened alert | AlertRefreshed alert | AlertClosed alert

text \<open>
  Modelled from the spec: the error taxonomy "StaleReading, NonMonotonicReading,
  UnknownDevice (if strict registration is enforced), ConfigurationError". Registration is
  not strict here (a device is "created on first reading"), and the spec does not say
  where a configuration is checked, so \<open>ingest\<close> returns only the first two.
\<close>

datatype ingest_error = StaleReading | NonMonotonicReading | UnknownDevice | ConfigurationError

text \<open>
  Modelled from the spec: the configuration surface, "leak/excessive-usage/offline
  thresholds, continuous-flow duration", the cool-down period and the length \<open>N\<close> of the
  sliding window of non-zero flow.
\<close>

record config =
  leak_threshold :: rat
  continuous_flow_duration :: int
  flow_window_length :: int
  cool_down :: int
  excessive_usage_threshold :: rat
  offline_threshold :: int

text \<open>
  Modelled from the spec: the evaluator's state, "an explicit keyed store (mapping device
  id to Device state)" and the alert records, in the order they were opened.
\<close>

record evaluator =
  devices :: "(string \<times> device) list"
  alerts :: "alert list"

text \<open>Modelled from the spec: the evaluator before any reading, with no device and no alert.\<close>

definition empty_evaluator :: evaluator where
  "empty_evaluator = \<lparr>devices = [], alerts = []\<rparr>"

text \<open>Modelled from the spec: an open alert of a given kind for a given device.\<close>

definition open_for :: "alert_kind \<Rightarrow> string \<Rightarrow> alert \<Rightarrow> bool" where
  "open_for k d a = (kind a = k \<and> of_device a = d \<and> resolved_at a = None)"

text \<open>Modelled from the spec: how many alerts of a kind are open for a device.\<close>

definition open_count :: "alert_kind \<Rightarrow> string \<Rightarrow> alert list \<Rightarrow> nat" where
  "open_count k d as = length (filter (open_for k d) as)"

text \<open>
  Modelled from the spec: opening an alert with deduplication ("at most one open alert of
  a given kind per device at any time"): nothing is opened while one is open, otherwise a
  new record is appended ("re-opening after resolution creates a new Alert record").
\<close>

definition open_alert ::
  "alert_kind \<Rightarrow> string \<Rightarrow> rat \<Rightarrow> rat \<Rightarrow> int \<Rightarrow> alert list \<Rightarrow> alert list \<times> event list"
where
  "open_alert k d v th t as =
     (if list_ex (open_for k d) as then (as, [])
      else (let a = \<lparr>kind = k, of_device = d, triggering_value = v, threshold = th,
                      opened_at = t, resolved_at = None, resolved_by = None\<rparr>
            in (as @ [a], [AlertOpened a])))"

text \<open>
  Modelled from the spec: "open (or refresh) a leak Alert": an alert that is already open
  takes the new triggering value.
\<close>

definition refresh :: "rat \<Rightarrow> alert \<Rightarrow> alert" where
  "refresh v a = a\<lparr>triggering_value := v\<rparr>"

text \<open>Modelled from the spec: "open (or refresh)", a refresh when an alert of the kind is open
  for the device and a deduplicated opening otherwise.\<close>

definition open_or_refresh ::
  "alert_kind \<Rightarrow> string \<Rightarrow> rat \<Rightarrow> rat \<Rightarrow> int \<Rightarrow> alert list \<Rightarrow> alert list \<times> event list"
where
  "open_or_refresh k d v th t as =
     (if list_ex (open_for k d) as
      then (map (\<lambda>a. if open_for k d a then refresh v a else a) as,
            map (\<lambda>a. AlertRefreshed (refresh v a)) (filter (open_for k d) as))
      else open_alert k d v th t as)"

text \<open>Modelled from the spec: the transition from open to auto-closed.\<close>

definition close :: "int \<Rightarrow> alert \<Rightarrow> alert" where
  "close t a = a\<lparr>resolved_at := Some t\<rparr>"

text \<open>Modelled from the spec: every open alert of the kind for the device is closed
  automatically at time \<open>t\<close>.\<close>

definition auto_close ::
  "alert_kind \<Rightarrow> string \<Rightarrow> int \<Rightarrow> alert list \<Rightarrow> alert list \<times> event list"
where
  "auto_close k d t as =
     (map (\<lambda>a. if open_for k d a then close t a else a) as,
      map (\<lambda>a. AlertClosed (close t a)) (filter (open_for k d) as))"

text \<open>
  Modelled from the spec: the transition from open to resolved, made by a person (the
  admin panel) on the alert at position \<open>i\<close>.
\<close>

definition resolve_alert :: "nat \<Rightarrow> string \<Rightarrow> int \<Rightarrow> evaluator \<Rightarrow> evaluator" where
  "resolve_alert i who t s =
     (if i < length (alerts s) \<and> resolved_at (alerts s ! i) = None
      then s\<lparr>alerts :=
               (alerts s)[i := (alerts s ! i)\<lparr>resolved_at := Some t, resolved_by := Some who\<rparr>]\<rparr>
      else s)"

text \<open>Modelled from the spec: the "rolling 24-hour" window, in seconds.\<close>

definition day :: int where
  "day = 86400"

text \<open>Modelled from the spec: windows are "pruned on each ingest".\<close>

definition prune :: "int \<Rightarrow> (int \<times> rat) list \<Rightarrow> (int \<times> rat) list" where
  "prune cutoff w = filter (\<lambda>(t, v). cutoff \<le> t) w"

text \<open>
  Modelled from the spec: "the sustained rate" of a run of non-zero flow, taken as the
  least flow rate of the run: the rate the flow stayed at or above throughout.
\<close>

fun sustained_rate :: "(int \<times> rat) list \<Rightarrow> rat" where
  "sustained_rate [] = 0"
| "sustained_rate [(t, v)] = v"
| "sustained_rate ((t, v) # w) = min v (sustained_rate w)"

text \<open>
  Modelled from the spec: "on acceptance: updates last-seen, cumulative consumption,
  cumulative pulse count; computes instantaneous flow-rate-sustained-duration by tracking a
  sliding window of the last N minutes of non-zero flow". A reading without flow ends the
  run, so the window holds the current run of non-zero flow.
\<close>

definition accept_reading :: "config \<Rightarrow> reading \<Rightarrow> device option \<Rightarrow> device" where
  "accept_reading cfg r prev =
     (let t = timestamp r;
          fw0 = (case prev of None \<Rightarrow> [] | Some d \<Rightarrow> flow_window d);
          uw0 = (case prev of None \<Rightarrow> [] | Some d \<Rightarrow> usage_window d);
          q0 = (case prev of None \<Rightarrow> None | Some d \<Rightarrow> quiet_since d)
      in \<lparr>last_seen = t,
          cumulative_pulse_count = pulse_count r,
          cumulative_consumption = total_consumption r,
          retired = (case prev of None \<Rightarrow> False | Some d \<Rightarrow> retired d),
          flow_window = (if 0 < flow_rate r
                         then prune (t - flow_window_length cfg) (fw0 @ [(t, flow_rate r)])
                         else []),
          quiet_since = (if flow_rate r \<le> 0 \<or> flow_rate r < leak_threshold cfg
                         then (case q0 of None \<Rightarrow> Some t | Some q \<Rightarrow> Some q)
                         else None),
          usage_window = prune (t - day) (uw0 @ [(t, total_consumption r)]),
          last_breach = (case prev of None \<Rightarrow> None | Some d \<Rightarrow> last_breach d)\<rparr>)"

text \<open>
  Modelled from the spec: leak detection, "if flow rate has remained continuously above 0
  for longer than a configurable continuous-flow duration AND the sustained rate exceeds
  LEAK_THRESHOLD_LITERS_PER_HOUR". The run has lasted from its first reading to the
  last-seen one.
\<close>

definition leak_detected :: "config \<Rightarrow> device \<Rightarrow> bool" where
  "leak_detected cfg d =
     (case flow_window d of
        [] \<Rightarrow> False
      | (t0, v0) # w \<Rightarrow>
          continuous_flow_duration cfg < last_seen d - t0 \<and>
          leak_threshold cfg < sustained_rate (flow_window d))"

text \<open>
  Modelled from the spec: the leak "Alert closes automatically once flow drops to zero or
  below threshold for a configurable cool-down period".
\<close>

definition cooled_down :: "config \<Rightarrow> device \<Rightarrow> bool" where
  "cooled_down cfg d =
     (case quiet_since d of None \<Rightarrow> False | Some q \<Rightarrow> cool_down cfg \<le> last_seen d - q)"

text \<open>Modelled from the spec: the leak alert is opened or refreshed while a leak is detected,
  and closed once the flow has cooled down.\<close>

definition leak_step ::
  "config \<Rightarrow> string \<Rightarrow> device \<Rightarrow> alert list \<Rightarrow> alert list \<times> event list"
where
  "leak_step cfg dev d as =
     (if leak_detected cfg d
      then open_or_refresh Leak dev (sustained_rate (flow_window d)) (leak_threshold cfg)
             (last_seen d) as
      else if cooled_down cfg d then auto_close Leak dev (last_seen d) as
      else (as, []))"

text \<open>
  Modelled from the spec: excessive usage, "a rolling 24-hour consumption delta per device;
  if it exceeds EXCESSIVE_USAGE_THRESHOLD_LITERS_PER_DAY, open an excessive-usage Alert
  (once per rolling day; does not re-open until the window rolls past the prior breach and
  a new breach occurs)".
\<close>

definition rolling_delta :: "device \<Rightarrow> rat" where
  "rolling_delta d =
     (case usage_window d of [] \<Rightarrow> 0 | (t0, c0) # w \<Rightarrow> cumulative_consumption d - c0)"

text \<open>Modelled from the spec: a breach counts when the rolling delta exceeds the threshold and
  the window has rolled past the prior breach.\<close>

definition new_breach :: "config \<Rightarrow> device \<Rightarrow> bool" where
  "new_breach cfg d =
     (excessive_usage_threshold cfg < rolling_delta d \<and>
      (case last_breach d of None \<Rightarrow> True | Some b \<Rightarrow> b < last_seen d - day))"

text \<open>Modelled from the spec: a new breach opens the excessive-usage alert.\<close>

definition usage_step ::
  "config \<Rightarrow> string \<Rightarrow> device \<Rightarrow> alert list \<Rightarrow> alert list \<times> event list"
where
  "usage_step cfg dev d as =
     (if new_breach cfg d
      then open_alert ExcessiveUsage dev (rolling_delta d) (excessive_usage_threshold cfg)
             (last_seen d) as
      else (as, []))"

text \<open>
  Modelled from the spec: the two rejections, "for all readings with timestamp \<open>\<le>\<close>
  device's last accepted timestamp, ingest returns StaleReading" and "rejects a reading
  whose consumption or pulse count decreases relative to stored state (signals
  NonMonotonicReading)". A device that has sent no reading has no stored state to compare
  with.
\<close>

definition stale :: "reading \<Rightarrow> device option \<Rightarrow> bool" where
  "stale r prev = (case prev of None \<Rightarrow> False | Some d \<Rightarrow> timestamp r \<le> last_seen d)"

text \<open>Modelled from the spec: "consumption or pulse count decreases relative to stored state".\<close>

definition non_monotonic :: "reading \<Rightarrow> device option \<Rightarrow> bool" where
  "non_monotonic r prev =
     (case prev of
        None \<Rightarrow> False
      | Some d \<Rightarrow> total_consumption r < cumulative_consumption d \<or>
                  pulse_count r < cumulative_pulse_count d)"

text \<open>
  Modelled from the spec: the contract \<open>ingest(reading) -> list<Event>\<close> with a typed
  failure. The spec does not say which of the two checks runs first; they run here in
  the order it lists them, staleness first. A rejected reading returns the state it was
  given. An accepted reading updates the device, closes
  an open device-offline alert ("closes it automatically on the next accepted reading"),
  and then runs leak and excessive-usage detection.
\<close>

definition ingest ::
  "config \<Rightarrow> evaluator \<Rightarrow> reading \<Rightarrow> (ingest_error + event list) \<times> evaluator"
where
  "ingest cfg s r =
     (let prev = map_of (devices s) (device_id r) in
      if stale r prev then (Inl StaleReading, s)
      else if non_monotonic r prev then (Inl NonMonotonicReading, s)
      else (let d = accept_reading cfg r prev;
                back_online = auto_close DeviceOffline (device_id r) (timestamp r) (alerts s);
                leak = leak_step cfg (device_id r) d (fst back_online);
                usage = usage_step cfg (device_id r) d (fst leak);
                d' = (if new_breach cfg d then d\<lparr>last_breach := Some (timestamp r)\<rparr> else d)
            in (Inr (snd back_online @ snd leak @ snd usage),
                \<lparr>devices = AList.update (device_id r) d' (devices s), alerts = fst usage\<rparr>)))"

text \<open>
  Modelled from the spec: offline detection, "a separate periodic sweep (not triggered by
  ingest) compares current time to each device's last-seen; if the gap exceeds a
  configurable offline threshold, opens a device-offline Alert".
\<close>

definition sweep_device ::
  "config \<Rightarrow> int \<Rightarrow> string \<times> device \<Rightarrow> alert list \<times> event list \<Rightarrow> alert list \<times> event list"
where
  "sweep_device cfg now entry acc =
     (if offline_threshold cfg < now - last_seen (snd entry)
      then (let opened = open_alert DeviceOffline (fst entry)
                           (of_int (now - last_seen (snd entry)))
                           (of_int (offline_threshold cfg)) now (fst acc)
            in (fst opened, snd acc @ snd opened))
      else acc)"

text \<open>Modelled from the spec: the sweep visits every device and changes only the alerts.\<close>

definition offline_sweep :: "config \<Rightarrow> int \<Rightarrow> evaluator \<Rightarrow> event list \<times> evaluator" where
  "offline_sweep cfg now s =
     (let swept = fold (sweep_device cfg now) (devices s) (alerts s, [])
      in (snd swept, s\<lparr>alerts := fst swept\<rparr>))"

text \<open>
  Modelled from the spec: the states the evaluator can be in, starting empty and moved by
  readings, sweeps and manual resolutions, in any order and with any arguments.
\<close>

inductive reachable :: "config \<Rightarrow> evaluator \<Rightarrow> bool" for cfg :: config where
  start: "reachable cfg empty_evaluator"
| after_ingest: "reachable cfg s \<Longrightarrow> reachable cfg (snd (ingest cfg s r))"
| after_sweep: "reachable cfg s \<Longrightarrow> reachable cfg (snd (offline_sweep cfg now s))"
| after_resolve: "reachable cfg s \<Longrightarrow> reachable cfg (resolve_alert i who t s)"

text \<open>Feeding a list of readings, keeping the state and dropping the outcomes.\<close>

definition run :: "config \<Rightarrow> evaluator \<Rightarrow> reading list \<Rightarrow> evaluator" where
  "run cfg s rs = foldl (\<lambda>s r. snd (ingest cfg s r)) s rs"

text \<open>
  A concrete configuration (leak threshold 50 L/h, continuous-flow duration 10 minutes)
  and device: \<open>D1\<close> reports once a minute a flow of 60 L/h, that is one litre and 450
  pulses more each minute.
\<close>

definition scenario_config :: config where
  "scenario_config = \<lparr>leak_threshold = 50, continuous_flow_duration = 600,
     flow_window_length = 3600, cool_down = 300, excessive_usage_threshold = 500,
     offline_threshold = 900\<rparr>"

definition minute_reading :: "int \<Rightarrow> reading" where
  "minute_reading k = \<lparr>device_id = ''D1'', flow_rate = 60, total_consumption = of_int k,
     pulse_count = 450 * k, timestamp = 60 * k\<rparr>"

definition leaking :: evaluator where
  "leaking = run scenario_config empty_evaluator
     (map minute_reading [0, 1, 2, 3, 4, 5, 6, 7, 8, 9, 10, 11])"

section \<open>Properties of the JavaScript helpers\<close>

lemma length_js [simp]: "length (js s) = length s"
  by (simp add: js_def)

lemma js_eq_Nil [simp]: "js s = [] \<longleftrightarrow> s = []"
  by (simp add: js_def)

lemma substring_0: "substring s 0 n = take n s"
  by (simp add: substring_def Let_def min_def)

lemma substring_from_drop: "substring_from s n = drop n s"
  by (simp add: substring_from_def substring_def Let_def min_def max_def)

lemma take_eq_iff_prefix: "take (length p) s = p \<longleftrightarrow> prefix p s"
  by (metis append_eq_conv_conj prefix_def)

lemma js_includes_iff: "js_includes s sub \<longleftrightarrow> sublist sub s"
proof (induction s)
  case Nil
  show ?case by simp
next
  case (Cons c cs)
  show ?case
    using Cons.IH take_eq_iff_prefix [of sub "c # cs"]
    by (auto simp: sublist_Cons_right)
qed

lemma digits_404: "digits 404 = js ''404''"
  by (simp add: digits.simps [of 404] digits.simps [of 40] digits.simps [of 4] js_def)

subsection \<open>getCookie\<close>

lemma getCookie_loop_find:
  "getCookie_loop dec name cookies =
     (case List.find (\<lambda>entry. prefix (name @ js ''='') entry) (map trim cookies) of
        None \<Rightarrow> Inr Null
      | Some entry \<Rightarrow> map_sum id String (dec (drop (length name + 1) entry)))"
proof (induction cookies)
  case Nil
  show ?case by simp
next
  case (Cons c cookies)
  have "take (length name + 1) (trim c) = name @ js ''='' \<longleftrightarrow>
        prefix (name @ js ''='') (trim c)"
    using take_eq_iff_prefix [of "name @ js ''=''" "trim c"] by simp
  then show ?case
    using Cons.IH
    by (auto simp: Let_def substring_0 substring_from_drop split: sum.splits)
qed

text \<open>
  Claim C10. For every \<open>document.cookie\<close> string and every name, \<open>getCookie\<close> looks
  for the first of the \<open>;\<close>-separated entries whose trimmed text begins with the name
  followed by \<open>=\<close>. If there is one, the outcome is that of \<open>decodeURIComponent\<close> on
  the rest of that trimmed entry (its value when it returns, its exception when it throws);
  if there is none, or \<open>document.cookie\<close> is empty, the result is \<open>null\<close>.
\<close>

theorem getCookie_first_match:
  "getCookie decodeURIComponent document_cookie name =
     (case List.find (\<lambda>entry. prefix (name @ js ''='') entry)
             (map trim (split 0x3B document_cookie)) of
        None \<Rightarrow> Inr Null
      | Some entry \<Rightarrow> map_sum id String (decodeURIComponent (drop (length name + 1) entry)))
   \<and> getCookie decodeURIComponent [] name = Inr Null"
proof (cases "document_cookie = []")
  case True
  then show ?thesis
    by (simp add: getCookie_def trim_def)
next
  case False
  then show ?thesis
    by (simp add: getCookie_def getCookie_loop_find)
qed

theorem getCookie_first_match_witness:
  "getCookie Inr (js ''a=1; csrftoken=abc; csrftoken=zzz'') (js ''csrftoken'') =
     Inr (String (js ''abc''))
   \<and> getCookie Inr (js ''a=1; b=2'') (js ''csrftoken'') = Inr Null"
  using getCookie_first_match [of Inr "js ''a=1; csrftoken=abc; csrftoken=zzz''" "js ''csrftoken''"]
    getCookie_first_match [of Inr "js ''a=1; b=2''" "js ''csrftoken''"]
  by (simp add: js_def trim_def is_white_space_def)

subsection \<open>apiRequest\<close>

lemma handle_response_not_ok:
  "\<not> response_ok response \<Longrightarrow>
   handle_response response =
     Inl (Error (js ''HTTP error! status: '' @ digits (response_status response)))"
  by (simp add: handle_response_def)

lemma handle_response_ok:
  "response_ok response \<Longrightarrow>
   handle_response response =
     (if \<exists>contentType. content_type_header response = Some contentType \<and>
           sublist (js ''application/json'') contentType
      then map_sum id Json (response_json response)
      else map_sum id Text (response_text response))"
  by (auto simp: handle_response_def js_includes_iff split: option.splits)

lemma apiRequest_after_headers:
  "getDefaultHeaders dec cookie = Inr headers \<Longrightarrow>
   apiRequest dec cookie fetch url options =
     (case (case fetch url (spread [(js ''headers'', headers),
                 (js ''credentials'', String (js ''same-origin''))] options) of
              Inl e \<Rightarrow> Inl e
            | Inr response \<Rightarrow> handle_response response) of
        Inl error \<Rightarrow> (Inl error, [error])
      | Inr v \<Rightarrow> (Inr v, []))"
  by (simp add: apiRequest_def Let_def)

text \<open>
  Claim C8. Once the default headers are built and \<open>fetch\<close> has been called with the
  merged configuration: a rejection of \<open>fetch\<close> is thrown to the caller; for every
  response whose \<open>ok\<close> is false, \<open>apiRequest\<close> throws the \<open>Error\<close> whose message ends
  with the decimal status; for every response whose \<open>ok\<close> is true, the outcome is that of
  \<open>response.json()\<close> exactly when the content-type header contains
  \<open>application/json\<close>, and that of \<open>response.text()\<close> otherwise (a missing header
  included), so a rejection of either is thrown as well. Whatever is thrown inside the
  \<open>try\<close> is logged once and thrown again.
\<close>

theorem apiRequest_outcome:
  assumes "getDefaultHeaders decodeURIComponent document_cookie = Inr headers"
    and "config = spread [(js ''headers'', headers),
                          (js ''credentials'', String (js ''same-origin''))] options"
  shows "(\<forall>e. fetch url config = Inl e \<longrightarrow>
            apiRequest decodeURIComponent document_cookie fetch url options = (Inl e, [e])) \<and>
         (\<forall>response. fetch url config = Inr response \<longrightarrow>
            (\<not> response_ok response \<longrightarrow>
               apiRequest decodeURIComponent document_cookie fetch url options =
                 (Inl (Error (js ''HTTP error! status: '' @ digits (response_status response))),
                  [Error (js ''HTTP error! status: '' @ digits (response_status response))])) \<and>
            (response_ok response \<longrightarrow>
               fst (apiRequest decodeURIComponent document_cookie fetch url options) =
                 (if \<exists>contentType. content_type_header response = Some contentType \<and>
                       sublist (js ''application/json'') contentType
                  then map_sum id Json (response_json response)
                  else map_sum id Text (response_text response)) \<and>
               (\<forall>e. fst (apiRequest decodeURIComponent document_cookie fetch url options) = Inl e \<longrightarrow>
                     snd (apiRequest decodeURIComponent document_cookie fetch url options) = [e])))"
proof (intro conjI allI impI)
  fix e
  assume "fetch url config = Inl e"
  then show "apiRequest decodeURIComponent document_cookie fetch url options = (Inl e, [e])"
    using assms by (simp add: apiRequest_after_headers)
next
  fix response
  assume f: "fetch url config = Inr response" and nok: "\<not> response_ok response"
  show "apiRequest decodeURIComponent document_cookie fetch url options =
          (Inl (Error (js ''HTTP error! status: '' @ digits (response_status response))),
           [Error (js ''HTTP error! status: '' @ digits (response_status response))])"
    using assms f handle_response_not_ok [OF nok]
    by (simp add: apiRequest_after_headers)
next
  fix response
  assume f: "fetch url config = Inr response" and ok: "response_ok response"
  have r: "apiRequest decodeURIComponent document_cookie fetch url options =
             (case handle_response response of
                Inl error \<Rightarrow> (Inl error, [error])
              | Inr v \<Rightarrow> (Inr v, []))"
    using assms f by (simp add: apiRequest_after_headers)
  show "fst (apiRequest decodeURIComponent document_cookie fetch url options) =
          (if \<exists>contentType. content_type_header response = Some contentType \<and>
                sublist (js ''application/json'') contentType
           then map_sum id Json (response_json response)
           else map_sum id Text (response_text response))"
    unfolding r handle_response_ok [OF ok, symmetric]
    by (simp split: sum.splits)
  fix e
  assume "fst (apiRequest decodeURIComponent document_cookie fetch url options) = Inl e"
  then show "snd (apiRequest decodeURIComponent document_cookie fetch url options) = [e]"
    unfolding r by (simp split: sum.splits)
qed

theorem apiRequest_outcome_witness:
  "getDefaultHeaders Inr (js ''csrftoken=abc'') =
     Inr (Object [(js ''Content-Type'', String (js ''application/json'')),
                  (js ''X-CSRFToken'', String (js ''abc''))]) \<and>
   apiRequest Inr (js ''csrftoken=abc'') (\<lambda>url config. Inr not_found) (js ''/api/devices/'') [] =
     (Inl (Error (js ''HTTP error! status: 404'')), [Error (js ''HTTP error! status: 404'')]) \<and>
   fst (apiRequest Inr (js ''csrftoken=abc'') (\<lambda>url config. Inr device_count)
          (js ''/api/devices/'') []) = Inr (Json 7)"
proof -
  have h: "getDefaultHeaders Inr (js ''csrftoken=abc'') =
     Inr (Object [(js ''Content-Type'', String (js ''application/json'')),
                  (js ''X-CSRFToken'', String (js ''abc''))])"
    by (simp add: getDefaultHeaders_def getCookie_def js_def trim_def is_white_space_def
        substring_def substring_from_def)
  have "\<not> response_ok not_found" "response_status not_found = 404"
    by (simp_all add: not_found_def)
  with apiRequest_outcome [OF h refl, of "\<lambda>url config. Inr not_found" "js ''/api/devices/''" "[]"]
  have "apiRequest Inr (js ''csrftoken=abc'') (\<lambda>url config. Inr not_found)
          (js ''/api/devices/'') [] =
        (Inl (Error (js ''HTTP error! status: '' @ digits 404)),
         [Error (js ''HTTP error! status: '' @ digits 404)])"
    by simp
  moreover
  have "js_includes (js ''application/json; charset=utf-8'') (js ''application/json'')"
    by (simp add: js_def)
  then have "\<exists>contentType. content_type_header device_count = Some contentType \<and>
               sublist (js ''application/json'') contentType"
    by (simp add: device_count_def js_includes_iff)
  with apiRequest_outcome [OF h refl, of "\<lambda>url config. Inr device_count" "js ''/api/devices/''" "[]"]
  have "fst (apiRequest Inr (js ''csrftoken=abc'') (\<lambda>url config. Inr device_count)
          (js ''/api/devices/'') []) = Inr (Json 7)"
    by (simp add: device_count_def)
  ultimately show ?thesis using h by (simp add: digits_404 js_def)
qed

subsection \<open>Formatters\<close>

text \<open>
  Claim C9. On missing input the display formatters return their placeholder and do not
  throw, whatever the built-in formatter would do: \<open>formatNumber\<close> returns \<open>-\<close> and
  \<open>formatCurrency\<close> returns \<open>$0.00\<close> for null and for undefined, and
  \<open>formatDateTime\<close> and \<open>formatTime\<close> return \<open>-\<close> for every falsy argument.
\<close>

theorem formatters_total_on_missing_input:
  "formatNumber numberFormat Null decimals = Inr (js ''-'') \<and>
   formatNumber numberFormat Undefined decimals = Inr (js ''-'') \<and>
   formatCurrency currencyFormat Null = Inr (js ''$0.00'') \<and>
   formatCurrency currencyFormat Undefined = Inr (js ''$0.00'') \<and>
   (falsy dateString \<longrightarrow>
      formatDateTime toLocaleString dateString = Inr (js ''-'') \<and>
      formatTime toLocaleTimeString dateString = Inr (js ''-''))"
  by (simp add: formatNumber_def formatCurrency_def formatDateTime_def formatTime_def)

theorem formatters_total_on_missing_input_witness:
  "falsy (String []) \<and>
   formatDateTime (\<lambda>v. Inl (RangeError (js ''Invalid time value''))) (String []) = Inr (js ''-'') \<and>
   formatTime (\<lambda>v. Inl (RangeError (js ''Invalid time value''))) (String []) = Inr (js ''-'') \<and>
   formatNumber (\<lambda>d v. Inl (RangeError (js ''digits''))) Null (Number (Finite 200)) = Inr (js ''-'') \<and>
   formatCurrency (\<lambda>v. Inl (RangeError (js ''currency''))) Undefined = Inr (js ''$0.00'')"
  using formatters_total_on_missing_input
    [of "\<lambda>d v. Inl (RangeError (js ''digits''))" "Number (Finite 200)"
        "\<lambda>v. Inl (RangeError (js ''currency''))" "String []"
        "\<lambda>v. Inl (RangeError (js ''Invalid time value''))"
        "\<lambda>v. Inl (RangeError (js ''Invalid time value''))"]
  by simp

subsection \<open>getDeviceStatusClass\<close>

lemma js_status_distinct [simp]:
  "js ''status-online'' \<noteq> js ''status-offline''"
  "js ''status-warning'' \<noteq> js ''status-offline''"
  "js ''status-online'' \<noteq> js ''status-warning''"
  "js ''status-offline'' \<noteq> js ''status-online''"
  "js ''status-offline'' \<noteq> js ''status-warning''"
  "js ''status-warning'' \<noteq> js ''status-online''"
  by (simp_all add: js_def)

lemma minutes_less_iff:
  "(of_int x / (1000 * 60) < (of_int m :: rat)) = (x < m * 60000)"
proof -
  have "(of_int x / (1000 * 60) < (of_int m :: rat)) = (of_int x < (of_int (m * 60000) :: rat))"
    by (simp add: divide_less_eq)
  then show ?thesis by (simp only: of_int_less_iff)
qed

lemma getDeviceStatusClass_cases:
  "getDeviceStatusClass timeValue now lastSeen =
     (if falsy lastSeen then js ''status-offline''
      else (case timeValue lastSeen of
              None \<Rightarrow> js ''status-offline''
            | Some t \<Rightarrow>
                if now - t < 5 * 60000 then js ''status-online''
                else if now - t < 30 * 60000 then js ''status-warning''
                else js ''status-offline''))"
  using minutes_less_iff [of _ 5] minutes_less_iff [of _ 30]
  by (simp add: getDeviceStatusClass_def diff_minutes_def js_less_def Let_def
      split: option.splits)

text \<open>
  Claim C7, as stated, fails on the code. With a last-seen exactly 30 minutes old the gap
  does not exceed 30 minutes, yet \<open>getDeviceStatusClass\<close> answers \<open>status-offline\<close>:
  its comparisons are \<open>diffMinutes < 5\<close> and \<open>diffMinutes < 30\<close> against literals.
\<close>

theorem getDeviceStatusClass_counterexample:
  "getDeviceStatusClass (\<lambda>v. Some 0) 1800000 (String (js ''1970-01-01T00:00:00Z'')) =
     js ''status-offline''
   \<and> \<not> spec_offline 30 1800000 (Some 0)"
  by (simp add: getDeviceStatusClass_def diff_minutes_def js_less_def spec_offline_def)

text \<open>
  Claim C7, amended. \<open>getDeviceStatusClass\<close> classifies from the gap between the current
  time and last-seen with the fixed bounds of 5 and 30 minutes: \<open>status-offline\<close> exactly
  when last-seen is falsy, or is not a valid date, or the gap is at least 30 minutes;
  \<open>status-warning\<close> exactly when the gap is at least 5 and less than 30 minutes;
  \<open>status-online\<close> exactly when the gap is less than 5 minutes.
\<close>

theorem getDeviceStatusClass_offline_iff:
  "(getDeviceStatusClass timeValue now lastSeen = js ''status-offline'') =
     (falsy lastSeen \<or>
      (case timeValue lastSeen of None \<Rightarrow> True | Some t \<Rightarrow> 30 * 60000 \<le> now - t)) \<and>
   (getDeviceStatusClass timeValue now lastSeen = js ''status-warning'') =
     (\<not> falsy lastSeen \<and>
      (case timeValue lastSeen of
         None \<Rightarrow> False
       | Some t \<Rightarrow> 5 * 60000 \<le> now - t \<and> now - t < 30 * 60000)) \<and>
   (getDeviceStatusClass timeValue now lastSeen = js ''status-online'') =
     (\<not> falsy lastSeen \<and>
      (case timeValue lastSeen of None \<Rightarrow> False | Some t \<Rightarrow> now - t < 5 * 60000))"
  by (auto simp: getDeviceStatusClass_cases split: option.splits)

theorem getDeviceStatusClass_offline_iff_witness:
  "getDeviceStatusClass (\<lambda>v. Some 0) 1799999 (String (js ''1970-01-01T00:00:00Z'')) =
     js ''status-warning'' \<and>
   getDeviceStatusClass (\<lambda>v. Some 0) 1800000 (String (js ''1970-01-01T00:00:00Z'')) =
     js ''status-offline'' \<and>
   getDeviceStatusClass (\<lambda>v. Some 0) 299999 (String (js ''1970-01-01T00:00:00Z'')) =
     js ''status-online'' \<and>
   getDeviceStatusClass (\<lambda>v. None) 0 (String (js ''never'')) = js ''status-offline'' \<and>
   getDeviceStatusClass (\<lambda>v. Some 0) 0 Null = js ''status-offline''"
  using getDeviceStatusClass_offline_iff [of "\<lambda>v. Some 0" 1799999 "String (js ''1970-01-01T00:00:00Z'')"]
    getDeviceStatusClass_offline_iff [of "\<lambda>v. Some 0" 1800000 "String (js ''1970-01-01T00:00:00Z'')"]
    getDeviceStatusClass_offline_iff [of "\<lambda>v. Some 0" 299999 "String (js ''1970-01-01T00:00:00Z'')"]
    getDeviceStatusClass_offline_iff [of "\<lambda>v. None" 0 "String (js ''never'')"]
    getDeviceStatusClass_offline_iff [of "\<lambda>v. Some 0" 0 Null]
  by simp

section \<open>Properties of the telemetry evaluator\<close>

lemmas evaluator_defs = ingest_def accept_reading_def stale_def non_monotonic_def leak_step_def
  usage_step_def leak_detected_def cooled_down_def new_breach_def rolling_delta_def
  auto_close_def open_or_refresh_def open_alert_def prune_def day_def refresh_def close_def
  open_for_def scenario_config_def minute_reading_def empty_evaluator_def run_def Let_def
  open_count_def

subsection \<open>Rejected readings\<close>

lemma ingest_rejects_stale:
  "stale r (map_of (devices s) (device_id r)) \<Longrightarrow> ingest cfg s r = (Inl StaleReading, s)"
  by (simp add: ingest_def)

lemma ingest_accepted:
  assumes "fst (ingest cfg s r) = Inr evs"
  shows "\<not> stale r (map_of (devices s) (device_id r))"
    and "\<not> non_monotonic r (map_of (devices s) (device_id r))"
  using assms by (auto simp: ingest_def Let_def split: if_splits)

lemma ingest_accepted_device:
  assumes "fst (ingest cfg s r) = Inr evs"
  shows "\<exists>d. map_of (devices (snd (ingest cfg s r))) (device_id r) = Some d \<and>
             last_seen d = timestamp r"
  using ingest_accepted [OF assms]
  by (simp add: ingest_def Let_def update_Some_unfold accept_reading_def)

text \<open>
  Claim C1. For every reading whose timestamp is less than or equal to the last accepted
  timestamp of its device, \<open>ingest\<close> returns \<open>StaleReading\<close> and the evaluator's state,
  the per-device state and the alerts, is the one it was given.
\<close>

theorem stale_reading_rejected:
  assumes "map_of (devices s) (device_id r) = Some d"
    and "timestamp r \<le> last_seen d"
  shows "ingest cfg s r = (Inl StaleReading, s)"
  using assms by (simp add: ingest_rejects_stale stale_def)

theorem stale_reading_rejected_witness:
  "map_of (devices (run scenario_config empty_evaluator [minute_reading 5]))
     (device_id (minute_reading 4)) =
     Some (accept_reading scenario_config (minute_reading 5) None) \<and>
   timestamp (minute_reading 4) \<le>
     last_seen (accept_reading scenario_config (minute_reading 5) None) \<and>
   ingest scenario_config (run scenario_config empty_evaluator [minute_reading 5])
     (minute_reading 4) =
     (Inl StaleReading, run scenario_config empty_evaluator [minute_reading 5])"
proof -
  have h1: "map_of (devices (run scenario_config empty_evaluator [minute_reading 5]))
              (device_id (minute_reading 4)) =
            Some (accept_reading scenario_config (minute_reading 5) None)"
    by (simp add: evaluator_defs)
  have h2: "timestamp (minute_reading 4) \<le>
            last_seen (accept_reading scenario_config (minute_reading 5) None)"
    by (simp add: evaluator_defs)
  from stale_reading_rejected [OF h1 h2, of scenario_config] h1 h2 show ?thesis
    by simp
qed

text \<open>
  Claim C5. Ingesting an accepted reading a second time is a no-op: the second call is
  rejected as stale by the last-seen check, so it emits no event and returns the state
  the first call left.
\<close>

theorem replay_is_no_op:
  assumes "fst (ingest cfg s r) = Inr evs"
  shows "ingest cfg (snd (ingest cfg s r)) r = (Inl StaleReading, snd (ingest cfg s r))"
proof -
  from ingest_accepted_device [OF assms] obtain d where
    "map_of (devices (snd (ingest cfg s r))) (device_id r) = Some d" and "last_seen d = timestamp r"
    by blast
  then have "stale r (map_of (devices (snd (ingest cfg s r))) (device_id r))"
    by (simp add: stale_def)
  then show ?thesis by (rule ingest_rejects_stale)
qed

theorem replay_is_no_op_witness:
  "fst (ingest scenario_config empty_evaluator (minute_reading 0)) = Inr [] \<and>
   ingest scenario_config (snd (ingest scenario_config empty_evaluator (minute_reading 0)))
     (minute_reading 0) =
     (Inl StaleReading, snd (ingest scenario_config empty_evaluator (minute_reading 0)))"
proof -
  have h: "fst (ingest scenario_config empty_evaluator (minute_reading 0)) = Inr []"
    by (simp add: evaluator_defs)
  from replay_is_no_op [OF h] h show ?thesis by simp
qed

subsection \<open>At most one open alert of a kind per device\<close>

lemma open_for_refresh [simp]: "open_for k d (refresh v a) = open_for k d a"
  by (simp add: open_for_def refresh_def)

lemma open_for_close [simp]: "\<not> open_for k d (close t a)"
  by (simp add: open_for_def close_def)

lemma open_for_distinct:
  "open_for k d a \<Longrightarrow> open_for k' d' a \<Longrightarrow> k' = k \<and> d' = d"
  by (auto simp: open_for_def)

lemma open_count_map_eq:
  assumes "\<And>a. P (f a) = P a"
  shows "length (filter P (map f as)) = length (filter P as)"
  using assms by (induction as) auto

lemma open_count_update_le:
  assumes "P y \<Longrightarrow> P (as ! i)"
  shows "length (filter P (as[i := y])) \<le> length (filter P as)"
  using assms
proof (induction as arbitrary: i)
  case Nil
  then show ?case by simp
next
  case (Cons a as)
  then show ?case by (cases i) auto
qed

lemma open_count_open_alert:
  "open_count k' d' (fst (open_alert k d v th t as)) =
     (if k' = k \<and> d' = d \<and> open_count k d as = 0 then 1 else open_count k' d' as)"
proof (cases "list_ex (open_for k d) as")
  case True
  then have "open_count k d as \<noteq> 0"
    by (auto simp: open_count_def list_ex_iff filter_empty_conv)
  with True show ?thesis
    by (simp add: open_alert_def)
next
  case False
  then have z: "open_count k d as = 0"
    by (auto simp: open_count_def list_ex_iff filter_empty_conv)
  from False show ?thesis
    using z by (auto simp: open_alert_def Let_def open_count_def open_for_def)
qed

lemma open_count_open_or_refresh:
  "open_count k' d' (fst (open_or_refresh k d v th t as)) =
     (if k' = k \<and> d' = d \<and> open_count k d as = 0 then 1 else open_count k' d' as)"
proof (cases "list_ex (open_for k d) as")
  case True
  then have nz: "open_count k d as \<noteq> 0"
    by (auto simp: open_count_def list_ex_iff filter_empty_conv)
  have "open_count k' d' (map (\<lambda>a. if open_for k d a then refresh v a else a) as) =
        open_count k' d' as"
    unfolding open_count_def by (rule open_count_map_eq) simp
  with True nz show ?thesis
    by (simp add: open_or_refresh_def)
next
  case False
  then show ?thesis
    by (simp add: open_or_refresh_def open_count_open_alert)
qed

lemma open_count_auto_close:
  "open_count k' d' (fst (auto_close k d t as)) =
     (if k' = k \<and> d' = d then 0 else open_count k' d' as)"
proof (cases "k' = k \<and> d' = d")
  case True
  then show ?thesis
    by (auto simp: auto_close_def open_count_def filter_empty_conv)
next
  case False
  have "length (filter (open_for k' d') (map (\<lambda>a. if open_for k d a then close t a else a) as)) =
        length (filter (open_for k' d') as)"
  proof (rule open_count_map_eq)
    fix a
    show "open_for k' d' (if open_for k d a then close t a else a) = open_for k' d' a"
      using False open_for_distinct [of k d a k' d'] by auto
  qed
  with False show ?thesis
    by (auto simp: auto_close_def open_count_def)
qed

lemma open_count_leak_step:
  "open_count k d as \<le> 1 \<Longrightarrow> open_count k d (fst (leak_step cfg dev dv as)) \<le> 1"
  by (simp add: leak_step_def open_count_open_or_refresh open_count_auto_close)

lemma open_count_usage_step:
  "open_count k d as \<le> 1 \<Longrightarrow> open_count k d (fst (usage_step cfg dev dv as)) \<le> 1"
  by (simp add: usage_step_def open_count_open_alert)

lemma open_count_ingest:
  assumes "open_count k d (alerts s) \<le> 1"
  shows "open_count k d (alerts (snd (ingest cfg s r))) \<le> 1"
proof -
  have "open_count k d (fst (auto_close DeviceOffline (device_id r) (timestamp r) (alerts s))) \<le> 1"
    using assms by (simp add: open_count_auto_close)
  then have "open_count k d (fst (usage_step cfg (device_id r)
           (accept_reading cfg r (map_of (devices s) (device_id r)))
           (fst (leak_step cfg (device_id r)
              (accept_reading cfg r (map_of (devices s) (device_id r)))
              (fst (auto_close DeviceOffline (device_id r) (timestamp r) (alerts s))))))) \<le> 1"
    by (intro open_count_usage_step open_count_leak_step)
  with assms show ?thesis
    by (simp add: ingest_def Let_def)
qed

lemma open_count_sweep_device:
  "open_count k d (fst acc) \<le> 1 \<Longrightarrow> open_count k d (fst (sweep_device cfg now entry acc)) \<le> 1"
  by (simp add: sweep_device_def Let_def open_count_open_alert)

lemma open_count_fold_sweep:
  "open_count k d (fst acc) \<le> 1 \<Longrightarrow>
   open_count k d (fst (fold (sweep_device cfg now) ds acc)) \<le> 1"
proof (induction ds arbitrary: acc)
  case Nil
  then show ?case by simp
next
  case (Cons entry ds)
  from Cons.prems have "open_count k d (fst (sweep_device cfg now entry acc)) \<le> 1"
    by (rule open_count_sweep_device)
  then have "open_count k d (fst (fold (sweep_device cfg now) ds (sweep_device cfg now entry acc))) \<le> 1"
    by (rule Cons.IH)
  then show ?case by simp
qed

lemma open_count_offline_sweep:
  assumes "open_count k d (alerts s) \<le> 1"
  shows "open_count k d (alerts (snd (offline_sweep cfg now s))) \<le> 1"
proof -
  have "open_count k d (fst (fold (sweep_device cfg now) (devices s) (alerts s, []))) \<le> 1"
    using assms by (intro open_count_fold_sweep) simp
  then show ?thesis
    by (simp add: offline_sweep_def Let_def)
qed

lemma open_count_resolve_alert:
  assumes "open_count k d (alerts s) \<le> 1"
  shows "open_count k d (alerts (resolve_alert i who t s)) \<le> 1"
proof -
  have "length (filter (open_for k d)
          ((alerts s)[i := (alerts s ! i)\<lparr>resolved_at := Some t, resolved_by := Some who\<rparr>])) \<le>
        length (filter (open_for k d) (alerts s))"
    by (rule open_count_update_le) (simp add: open_for_def)
  with assms show ?thesis
    by (simp add: resolve_alert_def open_count_def)
qed

lemma reachable_open_count:
  "reachable cfg s \<Longrightarrow> open_count k d (alerts s) \<le> 1"
proof (induction rule: reachable.induct)
  case start
  show ?case by (simp add: empty_evaluator_def open_count_def)
next
  case (after_ingest s r)
  from after_ingest.IH show ?case by (rule open_count_ingest)
next
  case (after_sweep s now)
  from after_sweep.IH show ?case by (rule open_count_offline_sweep)
next
  case (after_resolve s i who t)
  from after_resolve.IH show ?case by (rule open_count_resolve_alert)
qed

lemma reachable_run: "reachable cfg s \<Longrightarrow> reachable cfg (run cfg s rs)"
proof (induction rs arbitrary: s)
  case Nil
  then show ?case by (simp add: run_def)
next
  case (Cons r rs)
  from Cons.prems have "reachable cfg (snd (ingest cfg s r))"
    by (rule reachable.after_ingest)
  then have "reachable cfg (run cfg (snd (ingest cfg s r)) rs)"
    by (rule Cons.IH)
  then show ?case by (simp add: run_def)
qed

lemma open_count_pos_iff: "0 < open_count k d as \<longleftrightarrow> list_ex (open_for k d) as"
  by (auto simp: open_count_def list_ex_iff filter_empty_conv)

lemma auto_close_events: "e \<in> set (snd (auto_close k d t as)) \<Longrightarrow> \<exists>a. e = AlertClosed a"
  by (auto simp: auto_close_def)

lemma open_alert_events:
  "e \<in> set (snd (open_alert k d v th t as)) \<Longrightarrow> \<exists>a. e = AlertOpened a \<and> kind a = k"
  by (auto simp: open_alert_def Let_def split: if_splits)

lemma usage_step_events:
  "e \<in> set (snd (usage_step cfg dev dv as)) \<Longrightarrow> \<exists>a. e = AlertOpened a \<and> kind a = ExcessiveUsage"
  by (auto simp: usage_step_def dest: open_alert_events split: if_splits)

lemma refresh_events:
  assumes "list_ex (open_for k d) as"
  shows "snd (open_or_refresh k d v th t as) =
           map (\<lambda>a. AlertRefreshed (refresh v a)) (filter (open_for k d) as)"
  using assms by (simp add: open_or_refresh_def)

lemma second_leak_reading_refreshes:
  assumes acc: "fst (ingest cfg s r) = Inr evs"
    and leak: "leak_detected cfg (accept_reading cfg r (map_of (devices s) (device_id r)))"
    and one: "open_count Leak (device_id r) (alerts s) = 1"
  shows "open_count Leak (device_id r) (alerts (snd (ingest cfg s r))) = 1 \<and>
         (\<exists>a. AlertRefreshed a \<in> set evs \<and> kind a = Leak \<and> of_device a = device_id r) \<and>
         (\<forall>a. AlertOpened a \<in> set evs \<longrightarrow> kind a \<noteq> Leak)"
proof -
  define dev where "dev = device_id r"
  define d where "d = accept_reading cfg r (map_of (devices s) dev)"
  define a1 where "a1 = auto_close DeviceOffline dev (timestamp r) (alerts s)"
  define a2 where "a2 = leak_step cfg dev d (fst a1)"
  define a3 where "a3 = usage_step cfg dev d (fst a2)"
  have ing: "ingest cfg s r =
      (Inr (snd a1 @ snd a2 @ snd a3),
       \<lparr>devices = AList.update dev
           (if new_breach cfg d then d\<lparr>last_breach := Some (timestamp r)\<rparr> else d) (devices s),
         alerts = fst a3\<rparr>)"
    using ingest_accepted [OF acc]
    by (simp add: ingest_def Let_def dev_def d_def a1_def a2_def a3_def)
  have evs: "evs = snd a1 @ snd a2 @ snd a3"
    using acc by (simp add: ing)
  have c1: "open_count Leak dev (fst a1) = 1"
    using one by (simp add: a1_def open_count_auto_close dev_def)
  then have ex1: "list_ex (open_for Leak dev) (fst a1)"
    using open_count_pos_iff [of Leak dev "fst a1"] by simp
  have a2_eq: "a2 = open_or_refresh Leak dev (sustained_rate (flow_window d)) (leak_threshold cfg)
                      (last_seen d) (fst a1)"
    using leak by (simp add: a2_def leak_step_def d_def dev_def)
  have c2: "open_count Leak dev (fst a2) = 1"
    using c1 by (simp add: a2_eq open_count_open_or_refresh)
  have c3: "open_count Leak dev (fst a3) = 1"
    using c2 by (simp add: a3_def usage_step_def open_count_open_alert)
  from ex1 obtain a where a: "a \<in> set (fst a1)" "open_for Leak dev a"
    by (auto simp: list_ex_iff)
  have e2: "snd a2 = map (\<lambda>a. AlertRefreshed (refresh (sustained_rate (flow_window d)) a))
                       (filter (open_for Leak dev) (fst a1))"
    unfolding a2_eq by (rule refresh_events [OF ex1])
  have "AlertRefreshed (refresh (sustained_rate (flow_window d)) a) \<in> set (snd a2)"
    using a by (simp add: e2)
  moreover have "kind (refresh (sustained_rate (flow_window d)) a) = Leak"
    "of_device (refresh (sustained_rate (flow_window d)) a) = dev"
    using a(2) by (simp_all add: open_for_def refresh_def)
  ultimately have refreshed:
    "\<exists>a. AlertRefreshed a \<in> set evs \<and> kind a = Leak \<and> of_device a = dev"
    unfolding evs by auto
  have no_open: "kind b \<noteq> Leak" if "AlertOpened b \<in> set evs" for b
  proof -
    from that consider "AlertOpened b \<in> set (snd a1)" | "AlertOpened b \<in> set (snd a2)"
      | "AlertOpened b \<in> set (snd a3)"
      unfolding evs by auto
    then show ?thesis
    proof cases
      case 1
      then show ?thesis
        using auto_close_events [of "AlertOpened b"] by (auto simp: a1_def)
    next
      case 2
      then show ?thesis by (auto simp: e2)
    next
      case 3
      then show ?thesis
        using usage_step_events [of "AlertOpened b" cfg dev d "fst a2"] by (auto simp: a3_def)
    qed
  qed
  show ?thesis
    using c3 refreshed no_open by (simp add: ing dev_def)
qed

text \<open>
  Claim C3. In every state the evaluator can reach, each device has at most one open alert
  of each kind. In particular, when a leak alert is open for a device and an accepted
  reading of that device again meets the leak condition, the alert is refreshed: exactly
  one leak alert is open afterwards, and no leak alert is opened.
\<close>

theorem one_open_alert_per_kind:
  assumes "reachable cfg s"
  shows "open_count k d (alerts s) \<le> 1 \<and>
         (\<forall>r evs. fst (ingest cfg s r) = Inr evs \<and>
            leak_detected cfg (accept_reading cfg r (map_of (devices s) (device_id r))) \<and>
            list_ex (open_for Leak (device_id r)) (alerts s) \<longrightarrow>
            open_count Leak (device_id r) (alerts (snd (ingest cfg s r))) = 1 \<and>
            (\<exists>a. AlertRefreshed a \<in> set evs \<and> kind a = Leak \<and> of_device a = device_id r) \<and>
            (\<forall>a. AlertOpened a \<in> set evs \<longrightarrow> kind a \<noteq> Leak))"
proof (rule conjI, goal_cases)
  case 1
  show ?case
    using assms by (rule reachable_open_count)
next
  case 2
  show ?case
  proof (intro allI impI)
    fix r evs
    assume h: "fst (ingest cfg s r) = Inr evs \<and>
               leak_detected cfg (accept_reading cfg r (map_of (devices s) (device_id r))) \<and>
               list_ex (open_for Leak (device_id r)) (alerts s)"
    have "open_count Leak (device_id r) (alerts s) \<le> 1"
      using assms by (rule reachable_open_count)
    moreover have "0 < open_count Leak (device_id r) (alerts s)"
      using h by (simp add: open_count_pos_iff)
    ultimately have "open_count Leak (device_id r) (alerts s) = 1"
      by simp
    with h show "open_count Leak (device_id r) (alerts (snd (ingest cfg s r))) = 1 \<and>
               (\<exists>a. AlertRefreshed a \<in> set evs \<and> kind a = Leak \<and> of_device a = device_id r) \<and>
               (\<forall>a. AlertOpened a \<in> set evs \<longrightarrow> kind a \<noteq> Leak)"
      by (intro second_leak_reading_refreshes) simp_all
  qed
qed

lemma leaking_state:
  "leaking = \<lparr>devices =
    [(''D1'',
      \<lparr>last_seen = 660, cumulative_pulse_count = 4950,
         cumulative_consumption = 11, retired = False,
         flow_window =
           [(0, 60), (60, 60), (120, 60), (180, 60), (240, 60), (300, 60),
            (360, 60), (420, 60), (480, 60), (540, 60), (600, 60), (660, 60)],
         quiet_since = None,
         usage_window =
           [(0, 0), (60, 1), (120, 2), (180, 3), (240, 4), (300, 5),
            (360, 6), (420, 7), (480, 8), (540, 9), (600, 10), (660, 11)],
         last_breach = None\<rparr>)],
    alerts =
      [\<lparr>kind = Leak, of_device = ''D1'', triggering_value = 60,
          threshold = 50, opened_at = 660, resolved_at = None,
          resolved_by = None\<rparr>]\<rparr>"
  by (simp add: leaking_def evaluator_defs)

theorem one_open_alert_per_kind_witness:
  "reachable scenario_config leaking \<and>
   fst (ingest scenario_config leaking (minute_reading 12)) =
     Inr [AlertRefreshed \<lparr>kind = Leak, of_device = ''D1'', triggering_value = 60,
            threshold = 50, opened_at = 660, resolved_at = None, resolved_by = None\<rparr>] \<and>
   list_ex (open_for Leak ''D1'') (alerts leaking) \<and>
   leak_detected scenario_config
     (accept_reading scenario_config (minute_reading 12) (map_of (devices leaking) ''D1'')) \<and>
   open_count Leak ''D1'' (alerts leaking) \<le> 1 \<and>
   open_count Leak ''D1'' (alerts (snd (ingest scenario_config leaking (minute_reading 12)))) = 1"
proof -
  have r: "reachable scenario_config leaking"
    unfolding leaking_def by (intro reachable_run reachable.start)
  have a: "fst (ingest scenario_config leaking (minute_reading 12)) =
           Inr [AlertRefreshed \<lparr>kind = Leak, of_device = ''D1'', triggering_value = 60,
                  threshold = 50, opened_at = 660, resolved_at = None, resolved_by = None\<rparr>]"
    by (simp add: leaking_state) (simp add: evaluator_defs)
  have l: "leak_detected scenario_config
     (accept_reading scenario_config (minute_reading 12)
        (map_of (devices leaking) (device_id (minute_reading 12))))"
    by (simp add: leaking_state) (simp add: evaluator_defs)
  have e: "list_ex (open_for Leak (device_id (minute_reading 12))) (alerts leaking)"
    by (simp add: leaking_state) (simp add: evaluator_defs)
  have id: "device_id (minute_reading 12) = ''D1''"
    by (simp add: minute_reading_def)
  note inst = one_open_alert_per_kind [OF r, of Leak "''D1''"]
  from inst have inv: "open_count Leak ''D1'' (alerts leaking) \<le> 1"
    by (rule conjunct1)
  from inst a l e
  have "open_count Leak (device_id (minute_reading 12))
          (alerts (snd (ingest scenario_config leaking (minute_reading 12)))) = 1"
    by blast
  with inv r a l e show ?thesis
    by (simp add: id)
qed

end
